theory Spec2Isabelle
  imports Main "HOL-Library.Multiset" "HOL-Library.Product_Lexorder"
begin

section \<open>Dense arrays\<close>

text \<open>
  The COO kernels of \<^verbatim>\<open>jax/experimental/sparse/coo.py\<close> are written in terms of the
  dense array library (\<^verbatim>\<open>jnp\<close>, \<^verbatim>\<open>lax\<close>).  A one-dimensional array is a list, a
  two-dimensional array is its shape together with its row-major buffer.  Values range
  over an arbitrary commutative ring (exact integers or reals, or fixed-width integers
  with wrap-around); floating-point rounding is outside the model.  Index arrays hold
  integers; where the source casts them to the index dtype, the cast wraps them to the
  width of that dtype.
\<close>

record 'a array2 =
  dims :: "nat \<times> nat"
  buf :: "'a list"

definition wf_array2 :: "'a array2 \<Rightarrow> bool" where
  "wf_array2 A \<longleftrightarrow> length (buf A) = fst (dims A) * snd (dims A)"

text \<open>Modelled from the spec: \<^verbatim>\<open>jnp.zeros(n)\<close> and \<^verbatim>\<open>jnp.zeros((R, C))\<close>, the zero
  arrays every scatter-add starts from.\<close>

definition zeros :: "nat \<Rightarrow> 'a::zero list" where
  "zeros n = replicate n 0"

definition zeros2 :: "nat \<times> nat \<Rightarrow> 'a::zero array2" where
  "zeros2 sh = \<lparr>dims = sh, buf = replicate (fst sh * snd sh) 0\<rparr>"

text \<open>Modelled from the spec: indexing of the dense array library.  A negative index
  counts from the end of the axis; a gather clamps an index that is still outside its
  axis, a scatter drops the update of such an index.  The data model of the spec keeps
  every coordinate inside \<open>0 \<le> i < n\<close>, where all three agree with plain indexing.\<close>

definition normalize_index :: "nat \<Rightarrow> int \<Rightarrow> int" where
  "normalize_index n i = (if i < 0 then i + int n else i)"

definition clamp_index :: "nat \<Rightarrow> int \<Rightarrow> nat" where
  "clamp_index n i = nat (max 0 (min (normalize_index n i) (int n - 1)))"

text \<open>Modelled from the spec: the gather \<^verbatim>\<open>x[idx]\<close> of a one-dimensional array.\<close>

definition gather :: "'a::zero list \<Rightarrow> int list \<Rightarrow> 'a list" where
  "gather xs idx =
     map (\<lambda>i. if xs = [] then 0 else xs ! clamp_index (length xs) i) idx"

text \<open>Modelled from the spec: the scatter-add \<^verbatim>\<open>y.at[idx].add(upd)\<close> of a
  one-dimensional array; duplicates accumulate.\<close>

definition add_at :: "'a::plus list \<Rightarrow> int \<times> 'a \<Rightarrow> 'a list" where
  "add_at ys e =
     (let j = normalize_index (length ys) (fst e)
      in if 0 \<le> j \<and> j < int (length ys)
         then ys[nat j := ys ! nat j + snd e] else ys)"

definition scatter_add :: "'a::plus list \<Rightarrow> int list \<Rightarrow> 'a list \<Rightarrow> 'a list" where
  "scatter_add ys idx upd = fold (\<lambda>e ys. add_at ys e) (zip idx upd) ys"

text \<open>Modelled from the spec: the gather \<^verbatim>\<open>A[row, col]\<close> of a two-dimensional array
  at coordinate pairs.  An array with an axis of length zero has no cell to gather from;
  the value 0 stands there.  The round-trip and padding theorems are stated where no
  such gather occurs.\<close>

definition gather2 :: "'a::zero array2 \<Rightarrow> int list \<Rightarrow> int list \<Rightarrow> 'a list" where
  "gather2 A rs cs =
     map (\<lambda>(r, c). if fst (dims A) = 0 \<or> snd (dims A) = 0 then 0
                   else buf A ! (clamp_index (fst (dims A)) r * snd (dims A)
                                 + clamp_index (snd (dims A)) c))
         (zip rs cs)"

text \<open>Modelled from the spec: the scatter-add \<^verbatim>\<open>A.at[row, col].add(upd)\<close> of a
  two-dimensional array; each coordinate is checked against its own axis.\<close>

definition add_at2 :: "'a::plus array2 \<Rightarrow> int \<times> int \<times> 'a \<Rightarrow> 'a array2" where
  "add_at2 A e =
     (let r = normalize_index (fst (dims A)) (fst e);
          c = normalize_index (snd (dims A)) (fst (snd e))
      in if 0 \<le> r \<and> r < int (fst (dims A)) \<and> 0 \<le> c \<and> c < int (snd (dims A))
         then A\<lparr>buf := (buf A)[nat r * snd (dims A) + nat c :=
                           buf A ! (nat r * snd (dims A) + nat c) + snd (snd e)]\<rparr>
         else A)"

definition scatter_add2 ::
  "'a::plus array2 \<Rightarrow> int list \<Rightarrow> int list \<Rightarrow> 'a list \<Rightarrow> 'a array2" where
  "scatter_add2 A rs cs upd = fold (\<lambda>e A. add_at2 A e) (zip rs (zip cs upd)) A"

text \<open>Modelled from the spec: the gather \<^verbatim>\<open>B[idx]\<close> of whole rows of a two-dimensional
  array, and the scatter-add \<^verbatim>\<open>A.at[idx].add(rows)\<close> of whole rows.\<close>

definition gather_rows :: "'a::zero array2 \<Rightarrow> int list \<Rightarrow> 'a list list" where
  "gather_rows B idx =
     map (\<lambda>i. if fst (dims B) = 0 then replicate (snd (dims B)) 0
              else take (snd (dims B))
                     (drop (clamp_index (fst (dims B)) i * snd (dims B)) (buf B)))
         idx"

definition add_row_at :: "'a::plus array2 \<Rightarrow> int \<times> 'a list \<Rightarrow> 'a array2" where
  "add_row_at A e =
     (let k = snd (dims A); j = normalize_index (fst (dims A)) (fst e)
      in if 0 \<le> j \<and> j < int (fst (dims A))
         then A\<lparr>buf := take (nat j * k) (buf A)
                        @ map2 (+) (take k (drop (nat j * k) (buf A))) (snd e)
                        @ drop (nat j * k + k) (buf A)\<rparr>
         else A)"

definition scatter_add_rows ::
  "'a::plus array2 \<Rightarrow> int list \<Rightarrow> 'a list list \<Rightarrow> 'a array2" where
  "scatter_add_rows A idx upd = fold (\<lambda>e A. add_row_at A e) (zip idx upd) A"

text \<open>The inner product of two vectors, in which the adjoint identities are stated.\<close>

definition dot :: "'a::comm_ring_1 list \<Rightarrow> 'a list \<Rightarrow> 'a" where
  "dot xs ys = sum_list (map2 (*) xs ys)"


section \<open>The matrix container and its metadata\<close>

text \<open>\<^verbatim>\<open>COOInfo\<close>: the metadata passed below the container level.  Both flags default
  to false.\<close>

record COOInfo =
  shape :: "nat \<times> nat"
  rows_sorted :: bool
  cols_sorted :: bool

definition COOInfo_shape :: "nat \<times> nat \<Rightarrow> COOInfo" where
  "COOInfo_shape sh = \<lparr>shape = sh, rows_sorted = False, cols_sorted = False\<rparr>"

text \<open>The class \<^verbatim>\<open>COO\<close>: three parallel arrays, the shape and the two layout flags
  \<^verbatim>\<open>_rows_sorted\<close> and \<^verbatim>\<open>_cols_sorted\<close>; \<^verbatim>\<open>nse\<close> and \<^verbatim>\<open>_info\<close> are its properties.\<close>

record 'a COO =
  coo_data :: "'a list"
  coo_row :: "int list"
  coo_col :: "int list"
  coo_shape :: "nat \<times> nat"
  coo_rows_sorted :: bool
  coo_cols_sorted :: bool

definition coo_nse :: "'a COO \<Rightarrow> nat" where
  "coo_nse self = length (coo_data self)"

definition coo_info :: "'a COO \<Rightarrow> COOInfo" where
  "coo_info self = \<lparr>shape = coo_shape self, rows_sorted = coo_rows_sorted self,
                     cols_sorted = coo_cols_sorted self\<rparr>"

text \<open>The entries of a matrix as (row, column, value) triples, in storage order.\<close>

definition coo_entries :: "'a COO \<Rightarrow> (int \<times> int \<times> 'a) list" where
  "coo_entries self = zip (coo_row self) (zip (coo_col self) (coo_data self))"

text \<open>The invariants of the data model: the three arrays have one length and every
  coordinate lies inside the shape.\<close>

definition coo_valid :: "'a list \<Rightarrow> int list \<Rightarrow> int list \<Rightarrow> nat \<times> nat \<Rightarrow> bool" where
  "coo_valid data row col sh \<longleftrightarrow>
     length row = length data \<and> length col = length data \<and>
     list_all (\<lambda>r. 0 \<le> r \<and> r < int (fst sh)) row \<and>
     list_all (\<lambda>c. 0 \<le> c \<and> c < int (snd sh)) col"

text \<open>Exceptions of the source, and the two kinds of placeholder the differentiation
  engine passes to a reverse-mode rule: an undefined primal (the argument being
  differentiated, known by its abstract value only) and the symbolic zero cotangent
  \<^verbatim>\<open>ad.Zero\<close>.\<close>

datatype error = AssertionError | ValueError | TypeError | AttributeError

datatype ('s, 'a) primal = UndefinedPrimal 's | Primal 'a

datatype 'a cotangent = Zero | Cotangent 'a

datatype dtype =
  float16 | float32 | float64 | complex64 | complex128 | int8 | int16 | int32 | int64

datatype warning = DtypeNotAvailable | RequiresSortedIndices


section \<open>Matrix-vector and matrix-matrix product\<close>

text \<open>\<^verbatim>\<open>_coo_matvec_impl\<close>.  The elementwise product \<^verbatim>\<open>data * v[col]\<close> is taken over
  arrays of one length, as the abstract evaluation rule asserts.\<close>

definition coo_matvec_impl ::
  "'a::comm_ring_1 list \<Rightarrow> int list \<Rightarrow> int list \<Rightarrow> 'a list \<Rightarrow> COOInfo \<Rightarrow> bool \<Rightarrow> 'a list" where
  "coo_matvec_impl data row col v spinfo transpose' =
     (let (row', col') = (if transpose' then (col, row) else (row, col));
          out_shape = (if transpose' then snd (shape spinfo) else fst (shape spinfo));
          dv = map2 (*) data (gather v col')
      in scatter_add (zeros out_shape) row' dv)"

text \<open>\<^verbatim>\<open>_coo_matmat_impl\<close>: \<^verbatim>\<open>data[:, None] * B[col]\<close> scales each gathered row.\<close>

definition coo_matmat_impl ::
  "'a::comm_ring_1 list \<Rightarrow> int list \<Rightarrow> int list \<Rightarrow> 'a array2 \<Rightarrow> COOInfo \<Rightarrow> bool \<Rightarrow> 'a array2" where
  "coo_matmat_impl data row col B spinfo transpose' =
     (let (row', col') = (if transpose' then (col, row) else (row, col));
          out_shape = (if transpose' then snd (shape spinfo) else fst (shape spinfo));
          dB = map2 (\<lambda>d b. map (\<lambda>x. d * x) b) data (gather_rows B col')
      in scatter_add_rows (zeros2 (out_shape, snd (dims B))) row' dB)"

text \<open>\<^verbatim>\<open>_coo_matvec_gpu_lowering\<close> and \<^verbatim>\<open>_coo_matmat_gpu_lowering\<close>, by the value the
  lowered computation returns.  The accelerated kernel \<open>coo_matvec_mhlo\<close> is a parameter;
  it receives the shape and the transpose flag the dispatcher hands it.  The result is
  paired with the diagnostic, if one is emitted.\<close>

definition coo_matvec_gpu_lowering ::
  "('a::comm_ring_1 list \<Rightarrow> int list \<Rightarrow> int list \<Rightarrow> 'a list \<Rightarrow> nat \<times> nat \<Rightarrow> bool \<Rightarrow> 'a list)
   \<Rightarrow> dtype \<Rightarrow> 'a list \<Rightarrow> int list \<Rightarrow> int list \<Rightarrow> 'a list \<Rightarrow> COOInfo \<Rightarrow> bool
   \<Rightarrow> warning option \<times> 'a list" where
  "coo_matvec_gpu_lowering coo_matvec_mhlo dt data row col v spinfo transpose' =
     (if dt \<notin> set [float32, float64, complex64, complex128]
      then (Some DtypeNotAvailable, coo_matvec_impl data row col v spinfo transpose')
      else if rows_sorted spinfo
      then (None, coo_matvec_mhlo data row col v (shape spinfo) transpose')
      else if cols_sorted spinfo
      then (None, coo_matvec_mhlo data col row v
                    (snd (shape spinfo), fst (shape spinfo)) (\<not> transpose'))
      else (Some RequiresSortedIndices,
            coo_matvec_impl data row col v spinfo transpose'))"

definition coo_matmat_gpu_lowering ::
  "('a::comm_ring_1 list \<Rightarrow> int list \<Rightarrow> int list \<Rightarrow> 'a array2 \<Rightarrow> nat \<times> nat \<Rightarrow> bool \<Rightarrow> 'a array2)
   \<Rightarrow> dtype \<Rightarrow> 'a list \<Rightarrow> int list \<Rightarrow> int list \<Rightarrow> 'a array2 \<Rightarrow> COOInfo \<Rightarrow> bool
   \<Rightarrow> warning option \<times> 'a array2" where
  "coo_matmat_gpu_lowering coo_matmat_mhlo dt data row col B spinfo transpose' =
     (if dt \<notin> set [float32, float64, complex64, complex128]
      then (Some DtypeNotAvailable, coo_matmat_impl data row col B spinfo transpose')
      else if rows_sorted spinfo
      then (None, coo_matmat_mhlo data row col B (shape spinfo) transpose')
      else if cols_sorted spinfo
      then (None, coo_matmat_mhlo data col row B
                    (snd (shape spinfo), fst (shape spinfo)) (\<not> transpose'))
      else (Some RequiresSortedIndices,
            coo_matmat_impl data row col B spinfo transpose'))"

text \<open>The reference semantics as a kernel of the accelerated signature.\<close>

definition matvec_reference ::
  "'a::comm_ring_1 list \<Rightarrow> int list \<Rightarrow> int list \<Rightarrow> 'a list \<Rightarrow> nat \<times> nat \<Rightarrow> bool \<Rightarrow> 'a list" where
  "matvec_reference data row col v sh transpose' =
     coo_matvec_impl data row col v (COOInfo_shape sh) transpose'"

definition matmat_reference ::
  "'a::comm_ring_1 list \<Rightarrow> int list \<Rightarrow> int list \<Rightarrow> 'a array2 \<Rightarrow> nat \<times> nat \<Rightarrow> bool \<Rightarrow> 'a array2" where
  "matmat_reference data row col B sh transpose' =
     coo_matmat_impl data row col B (COOInfo_shape sh) transpose'"



text \<open>\<^verbatim>\<open>_coo_matvec_transpose\<close>.  The rule returns one entry per argument
  \<open>(data, row, col, v)\<close>.  With \<open>v\<close> undefined the product is bound again on
  \<open>data\<close>, which has to be a known array then.\<close>

definition coo_matvec_transpose ::
  "'a::comm_ring_1 list \<Rightarrow> (nat, 'a list) primal \<Rightarrow> (nat, int list) primal
   \<Rightarrow> (nat, int list) primal \<Rightarrow> (nat, 'a list) primal \<Rightarrow> COOInfo \<Rightarrow> bool
   \<Rightarrow> error + ((nat, 'a list) primal \<times> int list \<times> int list \<times> (nat, 'a list) primal)" where
  "coo_matvec_transpose ct data row col v spinfo transpose' =
     (case row of UndefinedPrimal _ \<Rightarrow> Inl AssertionError
      | Primal row' \<Rightarrow>
     (case col of UndefinedPrimal _ \<Rightarrow> Inl AssertionError
      | Primal col' \<Rightarrow>
     (case v of
        UndefinedPrimal _ \<Rightarrow>
          (case data of UndefinedPrimal _ \<Rightarrow> Inl TypeError
           | Primal data' \<Rightarrow>
               Inr (data, row', col',
                    Primal (coo_matvec_impl data' row' col' ct spinfo (\<not> transpose'))))
      | Primal v' \<Rightarrow>
          Inr (Primal (map2 (*) (gather ct row') (gather v' col')), row', col', v))))"

text \<open>Modelled from the spec: \<^verbatim>\<open>jnp.outer(ct, v)\<close> and
  \<^verbatim>\<open>_coo_extract(row, col, mat)\<close>, which gathers \<open>mat[row[i], col[i]]\<close>.\<close>

definition outer :: "'a::comm_ring_1 list \<Rightarrow> 'a list \<Rightarrow> 'a array2" where
  "outer xs ys = \<lparr>dims = (length xs, length ys),
                  buf = concat (map (\<lambda>x. map (\<lambda>y. x * y) ys) xs)\<rparr>"

definition coo_extract :: "int list \<Rightarrow> int list \<Rightarrow> 'a::zero array2 \<Rightarrow> 'a list" where
  "coo_extract row col mat = gather2 mat row col"


section \<open>Conversion to and from dense\<close>

text \<open>\<^verbatim>\<open>_coo_todense_impl\<close> and the public \<^verbatim>\<open>coo_todense\<close>.\<close>

definition coo_todense_impl ::
  "'a::comm_ring_1 list \<Rightarrow> int list \<Rightarrow> int list \<Rightarrow> COOInfo \<Rightarrow> 'a array2" where
  "coo_todense_impl data row col spinfo = scatter_add2 (zeros2 (shape spinfo)) row col data"

definition coo_todense :: "'a::comm_ring_1 COO \<Rightarrow> 'a array2" where
  "coo_todense mat = coo_todense_impl (coo_data mat) (coo_row mat) (coo_col mat) (coo_info mat)"

text \<open>Modelled from the spec: \<^verbatim>\<open>jnp.nonzero(mat, size=nse)\<close> returns the coordinates of
  the nonzero entries in row-major order, truncated to the first \<open>size\<close> of them and
  padded with the coordinate \<open>(0, 0)\<close> up to length \<open>size\<close>; \<^verbatim>\<open>(mat != 0).sum()\<close>
  counts the nonzero entries.\<close>

definition nonzero_positions :: "'a::zero list \<Rightarrow> nat list" where
  "nonzero_positions b = filter (\<lambda>p. b ! p \<noteq> 0) [0..<length b]"

definition nonzero :: "'a::zero array2 \<Rightarrow> nat \<Rightarrow> int list \<times> int list" where
  "nonzero mat size' =
     (let ps = take size' (nonzero_positions (buf mat));
          pad = replicate (size' - length ps) 0
      in (map (\<lambda>p. int (p div snd (dims mat))) ps @ pad,
          map (\<lambda>p. int (p mod snd (dims mat))) ps @ pad))"

definition count_nonzero :: "'a::zero array2 \<Rightarrow> nat" where
  "count_nonzero mat = length (filter (\<lambda>x. x \<noteq> 0) (buf mat))"

text \<open>Modelled from the spec: \<^verbatim>\<open>x.astype(index_dtype)\<close> on an index array;
  \<open>index_dtype\<close> controls the integer width of \<open>row\<close> and \<open>col\<close>.  The cast to a signed
  integer dtype of \<open>w\<close> bits keeps the low \<open>w\<close> bits in two's complement, so a value
  outside \<open>-2^(w-1) \<le> x < 2^(w-1)\<close> wraps.  A dtype that is not an integer dtype is not
  an index dtype; the values are left as they are.\<close>

fun int_bits :: "dtype \<Rightarrow> nat option" where
  "int_bits int8 = Some 8"
| "int_bits int16 = Some 16"
| "int_bits int32 = Some 32"
| "int_bits int64 = Some 64"
| "int_bits _ = None"

definition astype :: "int list \<Rightarrow> dtype \<Rightarrow> int list" where
  "astype xs dt =
     (case int_bits dt of Some w \<Rightarrow> map (signed_take_bit (w - 1)) xs | None \<Rightarrow> xs)"

text \<open>Every coordinate of a shape is representable in an index dtype: the dtype is a
  signed integer dtype of \<open>w\<close> bits and neither dimension exceeds \<open>2^(w-1)\<close>.\<close>

definition index_fits :: "dtype \<Rightarrow> nat \<times> nat \<Rightarrow> bool" where
  "index_fits dt sh \<longleftrightarrow>
     (case int_bits dt of
        Some w \<Rightarrow> int (fst sh) \<le> 2 ^ (w - 1) \<and> int (snd sh) \<le> 2 ^ (w - 1)
      | None \<Rightarrow> False)"

text \<open>\<^verbatim>\<open>_coo_fromdense_impl\<close>: the values at the coordinates found, masked to zero
  beyond the true number of nonzero entries; the coordinates are returned cast to
  \<open>index_dtype\<close>.\<close>

definition coo_fromdense_impl ::
  "'a::comm_ring_1 array2 \<Rightarrow> nat \<Rightarrow> dtype \<Rightarrow> 'a list \<times> int list \<times> int list" where
  "coo_fromdense_impl mat nse index_dtype =
     (let (row, col) = nonzero mat nse;
          data = gather2 mat row col;
          true_nonzeros = map (\<lambda>i. i < count_nonzero mat) [0..<nse];
          data' = map2 (\<lambda>t d. if t then d else 0) true_nonzeros data
      in (data', astype row index_dtype, astype col index_dtype))"

text \<open>The public \<^verbatim>\<open>coo_fromdense\<close>: \<open>nse\<close> defaults to the number of nonzero entries
  (\<open>index_dtype\<close> to \<open>int32\<close>), and the result is built with \<^verbatim>\<open>rows_sorted=True\<close>.\<close>

definition coo_fromdense :: "'a::comm_ring_1 array2 \<Rightarrow> nat option \<Rightarrow> dtype \<Rightarrow> 'a COO" where
  "coo_fromdense mat nse index_dtype =
     (let nse' = (case nse of None \<Rightarrow> count_nonzero mat | Some n \<Rightarrow> n);
          (data, row, col) = coo_fromdense_impl mat nse' index_dtype
      in \<lparr>coo_data = data, coo_row = row, coo_col = col, coo_shape = dims mat,
          coo_rows_sorted = True, coo_cols_sorted = False\<rparr>)"

text \<open>\<^verbatim>\<open>_coo_fromdense_transpose\<close>.  The cotangent is the triple \<open>(data, row, col)\<close>;
  an index cotangent is the symbolic zero or an array with its dtype, and \<open>M\<close> is the
  undefined primal, known by its shape.  The statements run in the order of the
  source: the length assertion, the dtype assertion, the guard on symbolic zeros, the
  assertion on \<open>M\<close>.  The symbolic zero has no \<^verbatim>\<open>dtype\<close> attribute, so reading it in the
  dtype assertion raises \<open>AttributeError\<close>, before the guard is reached.\<close>

definition cotangent_dtype :: "(dtype \<times> 'a) cotangent \<Rightarrow> error + dtype" where
  "cotangent_dtype x = (case x of Zero \<Rightarrow> Inl AttributeError | Cotangent a \<Rightarrow> Inr (fst a))"

definition coo_fromdense_transpose ::
  "'a::comm_ring_1 list \<times> (dtype \<times> int list) cotangent \<times> (dtype \<times> int list) cotangent
   \<Rightarrow> (nat \<times> nat, 'a array2) primal \<Rightarrow> nat \<Rightarrow> dtype \<Rightarrow> error + 'a array2" where
  "coo_fromdense_transpose ct M nse index_dtype =
     (case ct of (data, row, col) \<Rightarrow>
        if length data \<noteq> nse then Inl AssertionError
        else (case cotangent_dtype row of Inl e \<Rightarrow> Inl e | Inr row_dtype \<Rightarrow>
             (case cotangent_dtype col of Inl e \<Rightarrow> Inl e | Inr col_dtype \<Rightarrow>
                if \<not> (row_dtype = col_dtype \<and> col_dtype = index_dtype) then Inl AssertionError
                else (case (row, col) of
                        (Cotangent row', Cotangent col') \<Rightarrow>
                          (case M of
                             Primal _ \<Rightarrow> Inl AssertionError
                           | UndefinedPrimal sh \<Rightarrow>
                               Inr (coo_todense_impl data (snd row') (snd col')
                                      (COOInfo_shape sh)))
                      | _ \<Rightarrow> Inl ValueError))))"


section \<open>Container methods\<close>

text \<open>Modelled from the spec: \<^verbatim>\<open>lax.sort((row, col, data), num_keys=2)\<close>, a stable sort
  of the three arrays in lockstep, keyed by the first array and then by the second.\<close>

definition lax_sort2 ::
  "int list \<times> int list \<times> 'a list \<Rightarrow> int list \<times> int list \<times> 'a list" where
  "lax_sort2 operands =
     (case operands of (k1, k2, vs) \<Rightarrow>
        let s = sort_key (\<lambda>e. (fst e, fst (snd e))) (zip k1 (zip k2 vs))
        in (map fst s, map (\<lambda>e. fst (snd e)) s, map (\<lambda>e. snd (snd e)) s))"

text \<open>\<^verbatim>\<open>COO._sort_indices\<close>.\<close>

definition sort_indices :: "'a COO \<Rightarrow> 'a COO" where
  "sort_indices self =
     (if coo_rows_sorted self then self
      else (case lax_sort2 (coo_row self, coo_col self, coo_data self) of
              (row, col, data) \<Rightarrow>
                \<lparr>coo_data = data, coo_row = row, coo_col = col, coo_shape = coo_shape self,
                 coo_rows_sorted = True, coo_cols_sorted = False\<rparr>))"




section \<open>Relabelling the index arrays\<close>

lemma coo_matvec_impl_swap:
  "shape i' = (snd (shape i), fst (shape i)) \<Longrightarrow>
   coo_matvec_impl data col row v i' (\<not> t) = coo_matvec_impl data row col v i t"
  by (cases t) (simp_all add: coo_matvec_impl_def)

lemma coo_matmat_impl_swap:
  "shape i' = (snd (shape i), fst (shape i)) \<Longrightarrow>
   coo_matmat_impl data col row B i' (\<not> t) = coo_matmat_impl data row col B i t"
  by (cases t) (simp_all add: coo_matmat_impl_def)

lemma coo_matvec_impl_flags:
  "shape i' = shape i \<Longrightarrow>
   coo_matvec_impl data row col v i' t = coo_matvec_impl data row col v i t"
  by (simp add: coo_matvec_impl_def)

lemma coo_matmat_impl_flags:
  "shape i' = shape i \<Longrightarrow>
   coo_matmat_impl data row col B i' t = coo_matmat_impl data row col B i t"
  by (simp add: coo_matmat_impl_def)

text \<open>
  C3.  Swapping \<open>row\<close> and \<open>col\<close>, reversing the shape and flipping the transpose flag
  leaves the reference matrix-vector product and the reference matrix-matrix product
  unchanged, for every input.  Hence the dispatcher, run with a kernel that computes the
  reference semantics, returns the reference result on each of its four paths, whatever
  the dtype and the layout flags are.
\<close>

theorem swap_transformation_preserves_reference:
  fixes data :: "'a::comm_ring_1 list"
  shows "coo_matvec_impl data col row v \<lparr>shape = (C, R), rows_sorted = rs', cols_sorted = cs'\<rparr> (\<not> t)
           = coo_matvec_impl data row col v \<lparr>shape = (R, C), rows_sorted = rs, cols_sorted = cs\<rparr> t
       \<and> coo_matmat_impl data col row B \<lparr>shape = (C, R), rows_sorted = rs', cols_sorted = cs'\<rparr> (\<not> t)
           = coo_matmat_impl data row col B \<lparr>shape = (R, C), rows_sorted = rs, cols_sorted = cs\<rparr> t
       \<and> snd (coo_matvec_gpu_lowering matvec_reference dt data row col v spinfo t)
           = coo_matvec_impl data row col v spinfo t
       \<and> snd (coo_matmat_gpu_lowering matmat_reference dt data row col B spinfo t)
           = coo_matmat_impl data row col B spinfo t"
proof -
  have vec: "matvec_reference data col row v (snd (shape spinfo), fst (shape spinfo)) (\<not> t)
               = coo_matvec_impl data row col v spinfo t"
    unfolding matvec_reference_def
    by (rule coo_matvec_impl_swap) (simp add: COOInfo_shape_def)
  have vec0: "matvec_reference data row col v (shape spinfo) t
               = coo_matvec_impl data row col v spinfo t"
    unfolding matvec_reference_def
    by (rule coo_matvec_impl_flags) (simp add: COOInfo_shape_def)
  have mat: "matmat_reference data col row B (snd (shape spinfo), fst (shape spinfo)) (\<not> t)
               = coo_matmat_impl data row col B spinfo t"
    unfolding matmat_reference_def
    by (rule coo_matmat_impl_swap) (simp add: COOInfo_shape_def)
  have mat0: "matmat_reference data row col B (shape spinfo) t
               = coo_matmat_impl data row col B spinfo t"
    unfolding matmat_reference_def
    by (rule coo_matmat_impl_flags) (simp add: COOInfo_shape_def)
  show ?thesis
    by (simp add: coo_matvec_impl_swap coo_matmat_impl_swap
          coo_matvec_gpu_lowering_def coo_matmat_gpu_lowering_def vec vec0 mat mat0)
qed


text \<open>
  C7.  With one and the same shape, the transposed product and the product with the
  index arrays swapped differ: for a (2, 3) matrix the first has length 3, the second
  length 2.
\<close>

theorem transpose_flag_same_shape_counterexample:
  "coo_matvec_impl [5, 7 :: int] [0, 1] [1, 0] [1, 1]
      \<lparr>shape = (2, 3), rows_sorted = False, cols_sorted = False\<rparr> True
   \<noteq> coo_matvec_impl [5, 7] [1, 0] [0, 1] [1, 1]
      \<lparr>shape = (2, 3), rows_sorted = False, cols_sorted = False\<rparr> False"
  by code_simp

text \<open>
  C7, amended.  The product of shape \<open>(R, C)\<close> with the transpose flag set equals the
  product with \<open>row\<close> and \<open>col\<close> swapped, the flag cleared and the reversed shape
  \<open>(C, R)\<close>; for a square shape this is the same shape.
\<close>

theorem transpose_flag_is_index_swap:
  fixes data :: "'a::comm_ring_1 list"
  shows "coo_matvec_impl data row col v \<lparr>shape = (R, C), rows_sorted = rs, cols_sorted = cs\<rparr> True
       = coo_matvec_impl data col row v \<lparr>shape = (C, R), rows_sorted = rs', cols_sorted = cs'\<rparr> False"
  using coo_matvec_impl_swap[of "\<lparr>shape = (C, R), rows_sorted = rs', cols_sorted = cs'\<rparr>"
      "\<lparr>shape = (R, C), rows_sorted = rs, cols_sorted = cs\<rparr>" data col row v True]
  by simp


section \<open>Adjoint identities of the matrix-vector product\<close>

lemma length_add_at [simp]: "length (add_at ys e) = length ys"
  by (simp add: add_at_def Let_def)

lemma dot_sum: "length xs = length ys \<Longrightarrow> dot xs ys = (\<Sum>k<length xs. xs ! k * ys ! k)"
  by (simp add: dot_def sum_list_sum_nth atLeast0LessThan)

lemma dot_commute: "dot xs ys = dot ys xs"
proof -
  have "map2 (*) xs ys = map2 (*) ys xs" for xs ys :: "'a list"
  proof (induction xs arbitrary: ys)
    case (Cons x xs) then show ?case by (cases ys) (simp_all add: mult.commute)
  qed simp
  then show ?thesis by (simp add: dot_def)
qed

lemma length_zeros [simp]: "length (zeros n) = n"
  by (simp add: zeros_def)

lemma dot_zeros [simp]: "dot (zeros n) ct = 0"
proof -
  have "sum_list (map2 (*) (replicate n (0::'a)) ct) = 0" for ct
  proof (induction n arbitrary: ct)
    case (Suc n) then show ?case by (cases ct) simp_all
  qed simp
  then show ?thesis by (simp add: dot_def zeros_def)
qed

lemma dot_add_at:
  assumes "0 \<le> i" "i < int (length ys)" "length ct = length ys"
  shows "dot (add_at ys (i, u)) ct = dot ys ct + u * ct ! nat i"
proof -
  have j: "nat i < length ys" using assms by linarith
  have "dot (add_at ys (i, u)) ct = (\<Sum>k<length ys. (ys[nat i := ys ! nat i + u]) ! k * ct ! k)"
    using assms by (simp add: dot_sum add_at_def normalize_index_def)
  also have "\<dots> = (\<Sum>k<length ys. ys ! k * ct ! k + (if k = nat i then u * ct ! k else 0))"
    by (rule sum.cong) (auto simp: nth_list_update distrib_right)
  also have "\<dots> = (\<Sum>k<length ys. ys ! k * ct ! k) + u * ct ! nat i"
    using j by (simp add: sum.distrib)
  finally show ?thesis using assms by (simp add: dot_sum)
qed

lemma dot_fold_add_at:
  assumes "list_all (\<lambda>e. 0 \<le> fst e \<and> fst e < int (length ys)) es" "length ct = length ys"
  shows "dot (fold (\<lambda>e ys. add_at ys e) es ys) ct
           = dot ys ct + (\<Sum>e\<leftarrow>es. snd e * ct ! nat (fst e))"
  using assms
proof (induction es arbitrary: ys)
  case Nil then show ?case by simp
next
  case (Cons e es)
  obtain i u where e: "e = (i, u)" by (cases e)
  have "dot (fold (\<lambda>e ys. add_at ys e) es (add_at ys e)) ct
          = dot (add_at ys e) ct + (\<Sum>e\<leftarrow>es. snd e * ct ! nat (fst e))"
    using Cons.prems by (intro Cons.IH) simp_all
  then show ?case using Cons.prems by (simp add: e dot_add_at add.assoc)
qed

lemma gather_in_bounds:
  "list_all (\<lambda>i. 0 \<le> i \<and> i < int (length xs)) idx \<Longrightarrow> gather xs idx = map (\<lambda>i. xs ! nat i) idx"
  by (induction idx) (auto simp: gather_def clamp_index_def normalize_index_def min_def max_def)

lemma dot_scatter_add:
  assumes "length idx = length upd" "list_all (\<lambda>i. 0 \<le> i \<and> i < int n) idx" "length ct = n"
  shows "dot (scatter_add (zeros n) idx upd) ct = (\<Sum>k<length idx. upd ! k * ct ! nat (idx ! k))"
proof -
  have "list_all (\<lambda>e. 0 \<le> fst e \<and> fst e < int (length (zeros n :: 'a list))) (zip idx upd)"
    using assms(1,2) by (induction idx upd rule: list_induct2) simp_all
  then have "dot (scatter_add (zeros n) idx upd) ct
          = (\<Sum>e\<leftarrow>zip idx upd. snd e * ct ! nat (fst e))"
    unfolding scatter_add_def using assms(3) by (subst dot_fold_add_at) simp_all
  also have "\<dots> = (\<Sum>k<length idx. upd ! k * ct ! nat (idx ! k))"
    using assms(1) by (simp add: sum_list_sum_nth atLeast0LessThan)
  finally show ?thesis .
qed


lemma dot_matvec:
  assumes "coo_valid data row col (shape spinfo)"
    and "length v = (if t then fst (shape spinfo) else snd (shape spinfo))"
    and "length ct = (if t then snd (shape spinfo) else fst (shape spinfo))"
  shows "dot (coo_matvec_impl data row col v spinfo t) ct
           = (\<Sum>k<length data. data ! k
                 * v ! nat ((if t then row else col) ! k)
                 * ct ! nat ((if t then col else row) ! k))"
proof (cases t)
  case True
  have g: "gather v row = map (\<lambda>i. v ! nat i) row"
    using assms True by (intro gather_in_bounds) (simp add: coo_valid_def)
  show ?thesis using assms True
    by (simp add: coo_matvec_impl_def g dot_scatter_add coo_valid_def)
next
  case False
  have g: "gather v col = map (\<lambda>i. v ! nat i) col"
    using assms False by (intro gather_in_bounds) (simp add: coo_valid_def)
  show ?thesis using assms False
    by (simp add: coo_matvec_impl_def g dot_scatter_add coo_valid_def)
qed

lemma matvec_adjoint_identity:
  assumes "coo_valid data row col (shape spinfo)"
    and "length v = (if t then fst (shape spinfo) else snd (shape spinfo))"
    and "length ct = (if t then snd (shape spinfo) else fst (shape spinfo))"
  shows "dot (coo_matvec_impl data row col v spinfo t) ct
           = dot v (coo_matvec_impl data row col ct spinfo (\<not> t))"
proof -
  have "dot v (coo_matvec_impl data row col ct spinfo (\<not> t))
          = dot (coo_matvec_impl data row col ct spinfo (\<not> t)) v"
    by (rule dot_commute)
  also have "\<dots> = (\<Sum>k<length data. data ! k
                 * ct ! nat ((if \<not> t then row else col) ! k)
                 * v ! nat ((if \<not> t then col else row) ! k))"
    using assms by (intro dot_matvec) auto
  also have "\<dots> = dot (coo_matvec_impl data row col v spinfo t) ct"
    using assms by (subst dot_matvec) (auto intro!: sum.cong simp: mult_ac)
  finally show ?thesis by simp
qed



text \<open>
  C6.  For a matrix that satisfies the invariants of the data model, a vector \<open>v\<close> of
  the length the transpose flag requires and a cotangent \<open>ct\<close> of the length of the
  output, the reverse-mode rule with \<open>v\<close> undefined returns the product with the flag
  negated, applied to \<open>ct\<close>, and
  \<open>\<langle>matvec(data, row, col, v, t), ct\<rangle> = \<langle>v, matvec(data, row, col, ct, \<not> t)\<rangle>\<close>.
\<close>

theorem matvec_transpose_dense_operand_adjoint:
  fixes data :: "'a::comm_ring_1 list"
  assumes "coo_valid data row col (shape spinfo)"
    and "length v = (if t then fst (shape spinfo) else snd (shape spinfo))"
    and "length ct = (if t then snd (shape spinfo) else fst (shape spinfo))"
  shows "coo_matvec_transpose ct (Primal data) (Primal row) (Primal col)
             (UndefinedPrimal (length v)) spinfo t
           = Inr (Primal data, row, col,
                  Primal (coo_matvec_impl data row col ct spinfo (\<not> t)))
       \<and> dot (coo_matvec_impl data row col v spinfo t) ct
           = dot v (coo_matvec_impl data row col ct spinfo (\<not> t))"
  using matvec_adjoint_identity[OF assms] by (simp add: coo_matvec_transpose_def)

theorem matvec_transpose_dense_operand_adjoint_witness:
  "coo_valid [2, 3, 5 :: int] [0, 1, 1] [2, 0, 2] (2, 3)
   \<and> dot (coo_matvec_impl [2, 3, 5 :: int] [0, 1, 1] [2, 0, 2] [1, 10, 100]
            \<lparr>shape = (2, 3), rows_sorted = False, cols_sorted = False\<rparr> False) [7, 11]
       = dot [1, 10, 100] (coo_matvec_impl [2, 3, 5] [0, 1, 1] [2, 0, 2] [7, 11]
            \<lparr>shape = (2, 3), rows_sorted = False, cols_sorted = False\<rparr> True)
   \<and> dot (coo_matvec_impl [2, 3, 5 :: int] [0, 1, 1] [2, 0, 2] [1, 10, 100]
            \<lparr>shape = (2, 3), rows_sorted = False, cols_sorted = False\<rparr> False) [7, 11] = 6933"
proof -
  let ?i = "\<lparr>shape = (2, 3), rows_sorted = False, cols_sorted = False\<rparr>"
  have h1: "coo_valid [2, 3, 5 :: int] [0, 1, 1] [2, 0, 2] (shape ?i)" by code_simp
  have h2: "length [1, 10, 100 :: int] = (if False then fst (shape ?i) else snd (shape ?i))"
    by simp
  have h3: "length [7, 11 :: int] = (if False then snd (shape ?i) else fst (shape ?i))"
    by simp
  have v: "dot (coo_matvec_impl [2, 3, 5 :: int] [0, 1, 1] [2, 0, 2] [1, 10, 100] ?i False)
             [7, 11] = 6933"
    by code_simp
  from matvec_transpose_dense_operand_adjoint[OF h1 h2 h3] h1 v show ?thesis by simp
qed

text \<open>
  The rule for \<open>data\<close>: what it returns, that this is the extraction of the outer
  product at the sparsity pattern, and which cotangent is adjoint to the product for
  each value of the transpose flag: \<open>ct[row] * v[col]\<close> without the flag,
  \<open>ct[col] * v[row]\<close> with it.
\<close>

lemma clamp_index_less: "0 < n \<Longrightarrow> clamp_index n i < n"
  by (simp add: clamp_index_def normalize_index_def)

lemma nth_concat_uniform:
  assumes "\<forall>x\<in>set xs. length (f x) = n" "i < length xs" "j < n"
  shows "concat (map f xs) ! (i * n + j) = f (xs ! i) ! j"
  using assms
proof (induction xs arbitrary: i)
  case Nil then show ?case by simp
next
  case (Cons x xs)
  show ?case
  proof (cases i)
    case 0
    then show ?thesis using Cons.prems by (simp add: nth_append)
  next
    case (Suc i')
    have "concat (map f xs) ! (i' * n + j) = f (xs ! i') ! j"
      using Cons.prems Suc by (intro Cons.IH) simp_all
    then show ?thesis using Cons.prems Suc by (simp add: nth_append add.assoc)
  qed
qed

lemma extract_outer:
  fixes ct v :: "'a::comm_ring_1 list"
  shows "coo_extract row col (outer ct v) = map2 (*) (gather ct row) (gather v col)"
proof -
  have cell: "(if length ct = 0 \<or> length v = 0 then 0
               else concat (map (\<lambda>x. map (\<lambda>y. x * y) v) ct)
                      ! (clamp_index (length ct) r * length v + clamp_index (length v) c))
            = (if ct = [] then 0 else ct ! clamp_index (length ct) r)
              * (if v = [] then 0 else v ! clamp_index (length v) c)" for r c
  proof (cases "ct = [] \<or> v = []")
    case True then show ?thesis by auto
  next
    case False
    then have i: "clamp_index (length ct) r < length ct" and j: "clamp_index (length v) c < length v"
      by (simp_all add: clamp_index_less)
    have "concat (map (\<lambda>x. map (\<lambda>y. x * y) v) ct)
            ! (clamp_index (length ct) r * length v + clamp_index (length v) c)
          = map (\<lambda>y. ct ! clamp_index (length ct) r * y) v ! clamp_index (length v) c"
      using i j by (intro nth_concat_uniform) simp_all
    then show ?thesis using False j by simp
  qed
  have "map (\<lambda>(r, c). if length ct = 0 \<or> length v = 0 then 0
               else concat (map (\<lambda>x. map (\<lambda>y. x * y) v) ct)
                      ! (clamp_index (length ct) r * length v + clamp_index (length v) c))
          (zip row col)
        = map2 (*) (map (\<lambda>i. if ct = [] then 0 else ct ! clamp_index (length ct) i) row)
                   (map (\<lambda>i. if v = [] then 0 else v ! clamp_index (length v) i) col)"
    unfolding zip_map_map map_map
    by (rule map_cong) (auto simp add: cell simp del: length_0_conv)
  then show ?thesis
    by (simp add: coo_extract_def outer_def gather2_def gather_def cong: if_cong)
qed

lemma matvec_transpose_data_rule:
  fixes ct v :: "'a::comm_ring_1 list"
  shows "coo_matvec_transpose ct data (Primal row) (Primal col) (Primal v) spinfo t
           = Inr (Primal (map2 (*) (gather ct row) (gather v col)), row, col, Primal v)"
  by (simp add: coo_matvec_transpose_def)

lemma matvec_data_adjoint_untransposed:
  fixes ddata :: "'a::comm_ring_1 list"
  assumes va: "coo_valid ddata row col (shape spinfo)"
    and lv: "length v = snd (shape spinfo)" and lc: "length ct = fst (shape spinfo)"
  shows "dot (coo_matvec_impl ddata row col v spinfo False) ct
           = dot ddata (map2 (*) (gather ct row) (gather v col))"
proof -
  have gr: "gather ct row = map (\<lambda>i. ct ! nat i) row"
    using va lc by (intro gather_in_bounds) (simp add: coo_valid_def)
  have gc: "gather v col = map (\<lambda>i. v ! nat i) col"
    using va lv by (intro gather_in_bounds) (simp add: coo_valid_def)
  have len: "length row = length ddata" "length col = length ddata"
    using va by (simp_all add: coo_valid_def)
  have "dot (coo_matvec_impl ddata row col v spinfo False) ct
          = (\<Sum>k<length ddata. ddata ! k * v ! nat (col ! k) * ct ! nat (row ! k))"
    using dot_matvec[OF va, of v False ct] lv lc by simp
  also have "\<dots> = dot ddata (map2 (*) (gather ct row) (gather v col))"
    using len by (simp add: gr gc dot_sum mult_ac)
  finally show ?thesis .
qed

lemma matvec_data_adjoint_transposed:
  fixes ddata :: "'a::comm_ring_1 list"
  assumes va: "coo_valid ddata row col (shape spinfo)"
    and lv: "length v = fst (shape spinfo)" and lc: "length ct = snd (shape spinfo)"
  shows "dot (coo_matvec_impl ddata row col v spinfo True) ct
           = dot ddata (map2 (*) (gather ct col) (gather v row))"
proof -
  have gr: "gather ct col = map (\<lambda>i. ct ! nat i) col"
    using va lc by (intro gather_in_bounds) (simp add: coo_valid_def)
  have gc: "gather v row = map (\<lambda>i. v ! nat i) row"
    using va lv by (intro gather_in_bounds) (simp add: coo_valid_def)
  have len: "length row = length ddata" "length col = length ddata"
    using va by (simp_all add: coo_valid_def)
  have "dot (coo_matvec_impl ddata row col v spinfo True) ct
          = (\<Sum>k<length ddata. ddata ! k * v ! nat (row ! k) * ct ! nat (col ! k))"
    using dot_matvec[OF va, of v True ct] lv lc by simp
  also have "\<dots> = dot ddata (map2 (*) (gather ct col) (gather v row))"
    using len by (simp add: gr gc dot_sum mult_ac)
  finally show ?thesis .
qed

text \<open>
  C1.  The rule for \<open>data\<close> returns \<open>ct[row] * v[col]\<close> whatever the transpose flag is.
  With the flag set, on the 2 x 2 matrix with one entry at (0, 1), \<open>v = [1, 0]\<close> and
  \<open>ct = [0, 1]\<close>, the rule returns the cotangent \<open>[0]\<close>, while the product in the
  direction \<open>ddata = [1]\<close> has inner product 1 with \<open>ct\<close>: the adjoint identity
  \<open>\<langle>matvec(ddata, row, col, v, True), ct\<rangle> = \<langle>ddata, ct[row] * v[col]\<rangle>\<close> reads \<open>1 = 0\<close>.
\<close>

theorem matvec_transpose_data_ignores_flag:
  "coo_valid [1 :: int] [0] [1] (2, 2)
   \<and> coo_matvec_transpose [0, 1 :: int] (UndefinedPrimal 1) (Primal [0]) (Primal [1])
          (Primal [1, 0]) \<lparr>shape = (2, 2), rows_sorted = False, cols_sorted = False\<rparr> True
       = Inr (Primal [0], [0], [1], Primal [1, 0])
   \<and> dot (coo_matvec_impl [1 :: int] [0] [1] [1, 0]
            \<lparr>shape = (2, 2), rows_sorted = False, cols_sorted = False\<rparr> True) [0, 1] = 1
   \<and> dot [1 :: int] [0] = 0"
  by code_simp



section \<open>The reverse-mode rule of fromdense\<close>

text \<open>
  C2.  With symbolic zero cotangents on both index outputs the rule raises; with index
  cotangents that are arrays of the index dtype (here not zero) it succeeds and
  scatters the data cotangent at the coordinates they hold.
\<close>

theorem fromdense_transpose_zero_index_cotangent_counterexample:
  "coo_fromdense_transpose ([5 :: int], Zero, Zero) (UndefinedPrimal (2, 2)) 1 int32
       = Inl AttributeError
   \<and> coo_fromdense_transpose ([5 :: int], Cotangent (int32, [1]), Cotangent (int32, [0]))
         (UndefinedPrimal (2, 2)) 1 int32
       = Inr \<lparr>dims = (2, 2), buf = [0, 0, 5, 0]\<rparr>"
  by code_simp

text \<open>
  C2, amended.  When the data cotangent has length \<open>nse\<close>, \<open>index_dtype\<close> is an integer
  dtype and \<open>M\<close> is the undefined primal, the rule succeeds exactly when the cotangents of \<open>row\<close> and of \<open>col\<close> are
  both arrays of dtype \<open>index_dtype\<close>, and it then returns
  \<open>todense(ct_data, ct_row, ct_col)\<close> in the shape of \<open>M\<close>.  It fails when the cotangent
  of \<open>row\<close> or of \<open>col\<close> is the symbolic zero, and it fails with an assertion error when
  both are arrays but their dtypes are not both \<open>index_dtype\<close>.
\<close>

theorem fromdense_transpose_succeeds_iff_index_arrays:
  fixes data :: "'a::comm_ring_1 list"
  assumes "length data = nse" and "int_bits index_dtype = Some w"
  shows "(\<not> isl (coo_fromdense_transpose (data, row, col) (UndefinedPrimal sh) nse index_dtype)
            \<longleftrightarrow> (\<exists>r c. row = Cotangent (index_dtype, r) \<and> col = Cotangent (index_dtype, c)))
       \<and> (row = Zero \<or> col = Zero \<longrightarrow>
             coo_fromdense_transpose (data, row, col) (UndefinedPrimal sh) nse index_dtype
               = Inl AttributeError)
       \<and> (\<forall>dr r dc c. row = Cotangent (dr, r) \<and> col = Cotangent (dc, c) \<longrightarrow>
             coo_fromdense_transpose (data, row, col) (UndefinedPrimal sh) nse index_dtype
               = (if dr = dc \<and> dc = index_dtype
                  then Inr (coo_todense_impl data r c (COOInfo_shape sh))
                  else Inl AssertionError))"
proof (cases row)
  case Zero
  then show ?thesis
    using assms(1) by (simp add: coo_fromdense_transpose_def cotangent_dtype_def)
next
  case (Cotangent a)
  obtain dr r where a: "a = (dr, r)" by (cases a)
  show ?thesis
  proof (cases col)
    case Zero
    then show ?thesis
      using assms(1) Cotangent a
      by (simp add: coo_fromdense_transpose_def cotangent_dtype_def)
  next
    case (Cotangent b)
    obtain dc c where b: "b = (dc, c)" by (cases b)
    show ?thesis
      using assms(1) \<open>row = Cotangent a\<close> Cotangent a b
      by (auto simp add: coo_fromdense_transpose_def cotangent_dtype_def)
  qed
qed

theorem fromdense_transpose_succeeds_iff_index_arrays_witness:
  "length [5 :: int] = 1
   \<and> int_bits int32 = Some 32
   \<and> \<not> isl (coo_fromdense_transpose ([5 :: int], Cotangent (int32, [1]), Cotangent (int32, [0]))
              (UndefinedPrimal (2, 2)) 1 int32)
   \<and> isl (coo_fromdense_transpose ([5 :: int], Zero, Cotangent (int32, [0]))
            (UndefinedPrimal (2, 2)) 1 int32)
   \<and> isl (coo_fromdense_transpose ([5 :: int], Cotangent (int64, [1]), Cotangent (int32, [0]))
            (UndefinedPrimal (2, 2)) 1 int32)"
proof -
  have h: "length [5 :: int] = 1" by simp
  have i: "int_bits int32 = Some 32" by simp
  from fromdense_transpose_succeeds_iff_index_arrays[OF h i,
          of "Cotangent (int32, [1])" "Cotangent (int32, [0])" "(2, 2)"]
       fromdense_transpose_succeeds_iff_index_arrays[OF h i,
          of Zero "Cotangent (int32, [0])" "(2, 2)"]
       fromdense_transpose_succeeds_iff_index_arrays[OF h i,
          of "Cotangent (int64, [1])" "Cotangent (int32, [0])" "(2, 2)"]
       h
  show ?thesis by simp
qed


section \<open>The layout flags of fromdense\<close>

text \<open>
  C10.  The matrix returned by the public \<open>coo_fromdense\<close> has \<open>rows_sorted\<close> set and
  \<open>cols_sorted\<close> cleared, for every dense input, every \<open>nse\<close>, given or defaulted, and
  every index dtype.  The flag is set also where the padding breaks the order: the
  2 x 2 matrix whose only nonzero entry is at (1, 1), converted with \<open>nse = 2\<close>, has the
  row sequence \<open>[1, 0]\<close>.
\<close>

theorem fromdense_sets_rows_sorted_unconditionally:
  "coo_rows_sorted (coo_fromdense mat nse index_dtype)
   \<and> \<not> coo_cols_sorted (coo_fromdense mat nse index_dtype)
   \<and> coo_fromdense \<lparr>dims = (2, 2), buf = [0, 0, 0, 1 :: int]\<rparr> (Some 2) int32
       = \<lparr>coo_data = [1, 0], coo_row = [1, 0], coo_col = [1, 0], coo_shape = (2, 2),
          coo_rows_sorted = True, coo_cols_sorted = False\<rparr>
   \<and> \<not> sorted (coo_row (coo_fromdense \<lparr>dims = (2, 2), buf = [0, 0, 0, 1 :: int]\<rparr> (Some 2) int32))
   \<and> coo_fromdense \<lparr>dims = (2, 2), buf = [0, 0, 0, 1 :: int]\<rparr> None int32
       = \<lparr>coo_data = [1], coo_row = [1], coo_col = [1], coo_shape = (2, 2),
          coo_rows_sorted = True, coo_cols_sorted = False\<rparr>"
proof -
  have a: "coo_rows_sorted (coo_fromdense mat nse index_dtype)
           \<and> \<not> coo_cols_sorted (coo_fromdense mat nse index_dtype)"
    by (simp add: coo_fromdense_def Let_def split: prod.split)
  have b: "coo_fromdense \<lparr>dims = (2, 2), buf = [0, 0, 0, 1 :: int]\<rparr> (Some 2) int32
       = \<lparr>coo_data = [1, 0], coo_row = [1, 0], coo_col = [1, 0], coo_shape = (2, 2),
          coo_rows_sorted = True, coo_cols_sorted = False\<rparr>"
    by code_simp
  have c: "coo_fromdense \<lparr>dims = (2, 2), buf = [0, 0, 0, 1 :: int]\<rparr> None int32
       = \<lparr>coo_data = [1], coo_row = [1], coo_col = [1], coo_shape = (2, 2),
          coo_rows_sorted = True, coo_cols_sorted = False\<rparr>"
    by code_simp
  show ?thesis using a by (simp add: b c)
qed


section \<open>The banded-diagonal constructor\<close>







section \<open>Round trip through the dense form\<close>

lemma nonzero_positions_values:
  "map (nth b) (nonzero_positions b) = filter (\<lambda>x. x \<noteq> 0) b"
proof -
  have "filter (\<lambda>x. x \<noteq> 0) (map (nth b) [0..<length b])
          = map (nth b) (filter ((\<lambda>x. x \<noteq> 0) \<circ> nth b) [0..<length b])"
    by (rule filter_map)
  then show ?thesis by (simp add: nonzero_positions_def map_nth comp_def)
qed

lemma length_nonzero_positions:
  "length (nonzero_positions (buf mat)) = count_nonzero mat"
  unfolding count_nonzero_def
  by (metis length_map nonzero_positions_values)

lemma nonzero_positions_bound: "p \<in> set (nonzero_positions b) \<Longrightarrow> p < length b"
  by (simp add: nonzero_positions_def)

lemma nonzero_positions_iff:
  "p \<in> set (nonzero_positions b) \<longleftrightarrow> p < length b \<and> b ! p \<noteq> 0"
  by (auto simp add: nonzero_positions_def)

lemma distinct_nonzero_positions: "distinct (nonzero_positions b)"
  by (simp add: nonzero_positions_def)

lemma sorted_nonzero_positions: "sorted_wrt (<) (nonzero_positions b)"
  by (simp add: nonzero_positions_def sorted_wrt_filter)

lemma clamp_index_in_range: "i < n \<Longrightarrow> clamp_index n (int i) = i"
  by (simp add: clamp_index_def normalize_index_def)

lemma flat_position:
  fixes p R C :: nat
  assumes "p < R * C"
  shows "p div C < R" "p mod C < C" "p div C * C + p mod C = p" "0 < R" "0 < C"
proof -
  show c: "0 < C" using assms by (cases "C = 0") simp_all
  show "0 < R" using assms by (cases "R = 0") simp_all
  show "p mod C < C" using c by simp
  show "p div C < R" using assms c by (simp add: less_mult_imp_div_less)
  show "p div C * C + p mod C = p" by simp
qed

lemma gather2_positions:
  assumes "wf_array2 mat" "\<forall>p\<in>set ps. p < length (buf mat)"
  shows "gather2 mat (map (\<lambda>p. int (p div snd (dims mat))) ps)
                     (map (\<lambda>p. int (p mod snd (dims mat))) ps)
           = map (nth (buf mat)) ps"
proof -
  have "(if fst (dims mat) = 0 \<or> snd (dims mat) = 0 then 0
         else buf mat ! (clamp_index (fst (dims mat)) (int (p div snd (dims mat))) * snd (dims mat)
                         + clamp_index (snd (dims mat)) (int (p mod snd (dims mat)))))
        = buf mat ! p" if "p \<in> set ps" for p
  proof -
    have "p < fst (dims mat) * snd (dims mat)"
      using that assms by (simp add: wf_array2_def)
    from flat_position[OF this] show ?thesis by (simp add: clamp_index_in_range)
  qed
  then show ?thesis
    by (simp add: gather2_def zip_map_map zip_same_conv_map)
qed

lemma gather2_append:
  "length rs = length cs \<Longrightarrow>
   gather2 mat (rs @ rs') (cs @ cs') = gather2 mat rs cs @ gather2 mat rs' cs'"
  by (simp add: gather2_def)

lemma gather2_replicate:
  "\<exists>g. gather2 mat (replicate m r) (replicate m c) = replicate m g"
  by (simp add: gather2_def zip_replicate)

lemma mask_true: "map2 (\<lambda>t d. if t then d else 0) (replicate (length xs) True) xs = xs"
  by (induction xs) simp_all

lemma mask_false:
  "map2 (\<lambda>t d. if t then d else 0) (replicate m False) (replicate m g) = replicate m 0"
  by (induction m) simp_all

lemma true_nonzeros_split:
  "k \<le> n \<Longrightarrow> map (\<lambda>i. i < k) [0..<n] = replicate k True @ replicate (n - k) False"
proof -
  assume "k \<le> n"
  then have "[0..<n] = [0..<k] @ [k..<n]"
    by (metis le_add_diff_inverse upt_add_eq_append zero_le)
  moreover have "map (\<lambda>i. i < k) [0..<k] = replicate k True"
    by (simp add: list_eq_iff_nth_eq)
  moreover have "map (\<lambda>i. i < k) [k..<n] = replicate (n - k) False"
    by (simp add: list_eq_iff_nth_eq)
  ultimately show ?thesis by simp
qed

lemma astype_in_range:
  assumes "int_bits dt = Some w" and "\<forall>x\<in>set xs. 0 \<le> x \<and> x < 2 ^ (w - 1)"
  shows "astype xs dt = xs"
proof -
  have "signed_take_bit (w - 1) x = x" if "x \<in> set xs" for x
    using assms(2) that by (intro signed_take_bit_int_eq_self) auto
  then show ?thesis using assms(1) by (simp add: astype_def map_idI)
qed

lemma astype_coordinates:
  assumes wf: "wf_array2 mat" and fits: "index_fits dt (dims mat)"
    and ps: "\<forall>p\<in>set ps. p < length (buf mat)"
  shows "astype (map (\<lambda>p. int (p div snd (dims mat))) ps @ replicate m 0) dt
           = map (\<lambda>p. int (p div snd (dims mat))) ps @ replicate m 0"
    and "astype (map (\<lambda>p. int (p mod snd (dims mat))) ps @ replicate m 0) dt
           = map (\<lambda>p. int (p mod snd (dims mat))) ps @ replicate m 0"
proof -
  obtain w where w: "int_bits dt = Some w"
    and R: "int (fst (dims mat)) \<le> 2 ^ (w - 1)" and C: "int (snd (dims mat)) \<le> 2 ^ (w - 1)"
    using fits by (auto simp add: index_fits_def split: option.splits)
  have z: "(0 :: int) < 2 ^ (w - 1)" by simp
  have b: "int (p div snd (dims mat)) < 2 ^ (w - 1) \<and> int (p mod snd (dims mat)) < 2 ^ (w - 1)"
    if "p \<in> set ps" for p
  proof -
    have "p < fst (dims mat) * snd (dims mat)"
      using that ps wf by (simp add: wf_array2_def)
    from flat_position[OF this] R C show ?thesis by linarith
  qed
  show "astype (map (\<lambda>p. int (p div snd (dims mat))) ps @ replicate m 0) dt
           = map (\<lambda>p. int (p div snd (dims mat))) ps @ replicate m 0"
    using b z by (intro astype_in_range[OF w]) auto
  show "astype (map (\<lambda>p. int (p mod snd (dims mat))) ps @ replicate m 0) dt
           = map (\<lambda>p. int (p mod snd (dims mat))) ps @ replicate m 0"
    using b z by (intro astype_in_range[OF w]) auto
qed

lemma fromdense_impl_padded:
  fixes mat :: "'a::comm_ring_1 array2"
  assumes wf: "wf_array2 mat" and le: "count_nonzero mat \<le> nse"
    and fits: "index_fits dt (dims mat)"
  shows "coo_fromdense_impl mat nse dt =
     (filter (\<lambda>x. x \<noteq> 0) (buf mat) @ replicate (nse - count_nonzero mat) 0,
      map (\<lambda>p. int (p div snd (dims mat))) (nonzero_positions (buf mat))
        @ replicate (nse - count_nonzero mat) 0,
      map (\<lambda>p. int (p mod snd (dims mat))) (nonzero_positions (buf mat))
        @ replicate (nse - count_nonzero mat) 0)"
proof -
  let ?P = "nonzero_positions (buf mat)"
  let ?k = "count_nonzero mat"
  let ?pad = "replicate (nse - ?k) (0 :: int)"
  have len: "length ?P = ?k" by (rule length_nonzero_positions)
  have nz: "nonzero mat nse = (map (\<lambda>p. int (p div snd (dims mat))) ?P @ ?pad,
                               map (\<lambda>p. int (p mod snd (dims mat))) ?P @ ?pad)"
    using le len by (simp add: nonzero_def Let_def)
  obtain g where g: "gather2 mat ?pad ?pad = replicate (nse - ?k) g"
    using gather2_replicate by blast
  have ga: "gather2 mat (map (\<lambda>p. int (p div snd (dims mat))) ?P @ ?pad)
                        (map (\<lambda>p. int (p mod snd (dims mat))) ?P @ ?pad)
          = map (nth (buf mat)) ?P @ replicate (nse - ?k) g"
    using wf by (simp add: gather2_append gather2_positions nonzero_positions_bound g)
  have vals: "map (nth (buf mat)) ?P = filter (\<lambda>x. x \<noteq> 0) (buf mat)"
    by (rule nonzero_positions_values)
  have lv: "length (filter (\<lambda>x. x \<noteq> 0) (buf mat)) = ?k" by (simp add: count_nonzero_def)
  have mask: "map2 (\<lambda>t d. if t then d else 0) (map (\<lambda>i. i < ?k) [0..<nse])
                (filter (\<lambda>x. x \<noteq> 0) (buf mat) @ replicate (nse - ?k) g)
              = filter (\<lambda>x. x \<noteq> 0) (buf mat) @ replicate (nse - ?k) 0"
    using mask_true[of "filter (\<lambda>x. x \<noteq> 0) (buf mat)"] lv
    by (simp add: true_nonzeros_split[OF le] mask_false)
  have bnd: "\<forall>p\<in>set ?P. p < length (buf mat)"
    by (simp add: nonzero_positions_bound)
  show ?thesis
    by (simp add: coo_fromdense_impl_def nz ga vals mask astype_coordinates[OF wf fits bnd])
qed


lemma add_at2_flat:
  fixes A :: "'a::comm_ring_1 array2"
  assumes "dims A = (R, C)" "p < R * C"
  shows "add_at2 A (int (p div C), int (p mod C), u) = A\<lparr>buf := (buf A)[p := buf A ! p + u]\<rparr>"
  using flat_position[OF assms(2)] assms(1)
  by (simp add: add_at2_def normalize_index_def Let_def)

lemma fold_add_at2_positions:
  fixes A :: "'a::comm_ring_1 array2"
  assumes "dims A = (R, C)" "\<forall>p\<in>set ps. p < R * C"
  shows "fold (\<lambda>e A. add_at2 A e) (map (\<lambda>p. (int (p div C), int (p mod C), f p)) ps) A
           = A\<lparr>buf := fold (\<lambda>p bf. bf[p := bf ! p + f p]) ps (buf A)\<rparr>"
  using assms
proof (induction ps arbitrary: A)
  case Nil then show ?case by simp
next
  case (Cons p ps)
  have step: "add_at2 A (int (p div C), int (p mod C), f p) = A\<lparr>buf := (buf A)[p := buf A ! p + f p]\<rparr>"
    using Cons.prems add_at2_flat[of A R C p "f p"] by simp
  have "fold (\<lambda>e A. add_at2 A e) (map (\<lambda>p. (int (p div C), int (p mod C), f p)) ps)
          (A\<lparr>buf := (buf A)[p := buf A ! p + f p]\<rparr>)
        = (A\<lparr>buf := (buf A)[p := buf A ! p + f p]\<rparr>)
            \<lparr>buf := fold (\<lambda>p bf. bf[p := bf ! p + f p]) ps
                     (buf (A\<lparr>buf := (buf A)[p := buf A ! p + f p]\<rparr>))\<rparr>"
    using Cons.prems by (intro Cons.IH) simp_all
  then show ?case by (simp add: step)
qed

lemma length_fold_update [simp]:
  "length (fold (\<lambda>p bf. bf[p := bf ! p + f p]) ps bf) = length bf"
  by (induction ps arbitrary: bf) simp_all

lemma fold_update_nth:
  fixes bf :: "'a::comm_ring_1 list"
  assumes "distinct ps" "\<forall>p\<in>set ps. p < length bf" "q < length bf"
  shows "fold (\<lambda>p bf. bf[p := bf ! p + f p]) ps bf ! q
           = (if q \<in> set ps then bf ! q + f q else bf ! q)"
  using assms
proof (induction ps arbitrary: bf)
  case Nil then show ?case by simp
next
  case (Cons p ps)
  have "fold (\<lambda>p bf. bf[p := bf ! p + f p]) ps (bf[p := bf ! p + f p]) ! q
          = (if q \<in> set ps then (bf[p := bf ! p + f p]) ! q + f q else (bf[p := bf ! p + f p]) ! q)"
    using Cons.prems by (intro Cons.IH) simp_all
  then show ?case using Cons.prems by (auto simp add: nth_list_update)
qed

lemma scatter_nonzero_positions:
  fixes b :: "'a::comm_ring_1 list"
  shows "fold (\<lambda>p bf. bf[p := bf ! p + b ! p]) (nonzero_positions b) (replicate (length b) 0) = b"
proof (rule nth_equalityI)
  show "length (fold (\<lambda>p bf. bf[p := bf ! p + b ! p]) (nonzero_positions b)
                  (replicate (length b) 0)) = length b"
    by simp
next
  fix q
  assume "q < length (fold (\<lambda>p bf. bf[p := bf ! p + b ! p]) (nonzero_positions b)
                  (replicate (length b) 0))"
  then have q: "q < length b" by simp
  have "fold (\<lambda>p bf. bf[p := bf ! p + b ! p]) (nonzero_positions b) (replicate (length b) 0) ! q
          = (if q \<in> set (nonzero_positions b) then replicate (length b) 0 ! q + b ! q
             else replicate (length b) 0 ! q)"
    using q by (intro fold_update_nth) (simp_all add: distinct_nonzero_positions nonzero_positions_bound)
  then show "fold (\<lambda>p bf. bf[p := bf ! p + b ! p]) (nonzero_positions b) (replicate (length b) 0) ! q
          = b ! q"
    using q by (simp add: nonzero_positions_iff)
qed

lemma add_at2_zero:
  fixes A :: "'a::comm_ring_1 array2"
  shows "add_at2 A (r, c, 0) = A"
  by (simp add: add_at2_def Let_def)

lemma fold_add_at2_padding:
  fixes A :: "'a::comm_ring_1 array2"
  shows "fold (\<lambda>e A. add_at2 A e) (replicate m (r, c, 0)) A = A"
  by (induction m) (simp_all add: add_at2_zero del: fold_replicate)

lemma zip3_map: "zip (map f xs) (zip (map g xs) (map h xs)) = map (\<lambda>x. (f x, g x, h x)) xs"
  by (induction xs) simp_all

lemma todense_fromdense_impl:
  fixes mat :: "'a::comm_ring_1 array2"
  assumes wf: "wf_array2 mat" and le: "count_nonzero mat \<le> nse" and sh: "shape spinfo = dims mat"
    and fits: "index_fits dt (dims mat)"
  shows "(case coo_fromdense_impl mat nse dt of (data, row, col) \<Rightarrow>
            coo_todense_impl data row col spinfo) = mat"
proof -
  let ?P = "nonzero_positions (buf mat)"
  let ?m = "nse - count_nonzero mat"
  let ?C = "snd (dims mat)"
  have ent: "zip (map (\<lambda>p. int (p div ?C)) ?P @ replicate ?m 0)
              (zip (map (\<lambda>p. int (p mod ?C)) ?P @ replicate ?m 0)
                   (map (nth (buf mat)) ?P @ replicate ?m (0 :: 'a)))
           = map (\<lambda>p. (int (p div ?C), int (p mod ?C), buf mat ! p)) ?P @ replicate ?m (0, 0, 0)"
    by (simp add: zip3_map zip_replicate)
  have d: "dims (zeros2 (dims mat) :: 'a array2) = (fst (dims mat), ?C)"
    by (simp add: zeros2_def)
  have bnd: "\<forall>p\<in>set ?P. p < fst (dims mat) * ?C"
    using wf by (auto simp add: wf_array2_def dest: nonzero_positions_bound)
  have "scatter_add2 (zeros2 (dims mat))
           (map (\<lambda>p. int (p div ?C)) ?P @ replicate ?m 0)
           (map (\<lambda>p. int (p mod ?C)) ?P @ replicate ?m 0)
           (map (nth (buf mat)) ?P @ replicate ?m 0)
        = (zeros2 (dims mat))\<lparr>buf := fold (\<lambda>p bf. bf[p := bf ! p + buf mat ! p]) ?P
                                        (buf (zeros2 (dims mat) :: 'a array2))\<rparr>"
    unfolding scatter_add2_def ent
    by (simp add: fold_add_at2_padding fold_add_at2_positions[OF d bnd] del: fold_replicate)
  also have "\<dots> = \<lparr>dims = dims mat, buf = buf mat\<rparr>"
    using wf scatter_nonzero_positions[of "buf mat"] by (simp add: zeros2_def wf_array2_def)
  also have "\<dots> = mat" by simp
  finally show ?thesis
    by (simp add: fromdense_impl_padded[OF wf le fits] coo_todense_impl_def sh
          nonzero_positions_values[symmetric])
qed


lemma fromdense_impl_lengths:
  "length (fst (coo_fromdense_impl mat n dt)) = n
   \<and> length (fst (snd (coo_fromdense_impl mat n dt))) = n
   \<and> length (snd (snd (coo_fromdense_impl mat n dt))) = n"
  by (simp add: coo_fromdense_impl_def nonzero_def gather2_def astype_def Let_def
        split: option.split)

lemma row_major_positions:
  fixes mat :: "'a::comm_ring_1 array2"
  shows "map2 (\<lambda>r c. r * int (snd (dims mat)) + c)
           (map (\<lambda>p. int (p div snd (dims mat))) (nonzero_positions (buf mat)))
           (map (\<lambda>p. int (p mod snd (dims mat))) (nonzero_positions (buf mat)))
         = map int (nonzero_positions (buf mat))"
proof -
  have "int (p div C) * int C + int (p mod C) = int p" for p C :: nat
    by (metis div_mult_mod_eq of_nat_add of_nat_mult)
  then show ?thesis by (simp add: zip_map_map zip_same_conv_map)
qed

text \<open>
  C4.  With the index dtype \<open>int8\<close>, the 1 x 130 matrix whose only nonzero entry is a 3
  in column 129 does not survive the round trip: the column is cast to \<open>-127\<close>, which
  \<open>todense\<close> reads as column 3.
\<close>

theorem todense_fromdense_narrow_index_counterexample:
  "wf_array2 \<lparr>dims = (1, 130), buf = replicate 129 0 @ [3 :: int]\<rparr>
   \<and> count_nonzero \<lparr>dims = (1, 130), buf = replicate 129 0 @ [3 :: int]\<rparr> = 1
   \<and> coo_fromdense_impl \<lparr>dims = (1, 130), buf = replicate 129 0 @ [3 :: int]\<rparr> 1 int8
       = ([3], [0], [- 127])
   \<and> coo_todense (coo_fromdense \<lparr>dims = (1, 130), buf = replicate 129 0 @ [3 :: int]\<rparr>
         (Some 1) int8)
       = \<lparr>dims = (1, 130), buf = [0, 0, 0, 3] @ replicate 126 0\<rparr>
   \<and> coo_todense (coo_fromdense \<lparr>dims = (1, 130), buf = replicate 129 0 @ [3 :: int]\<rparr>
         (Some 1) int8)
       \<noteq> \<lparr>dims = (1, 130), buf = replicate 129 0 @ [3]\<rparr>"
  by code_simp

text \<open>
  C4, amended.  For a dense matrix \<open>M\<close> (a buffer of \<open>R * C\<close> values) with exactly \<open>k\<close>
  nonzero entries and an index dtype in which every coordinate of the shape is
  representable (a signed integer dtype of \<open>w\<close> bits with \<open>R \<le> 2^(w-1)\<close> and
  \<open>C \<le> 2^(w-1)\<close>), \<open>todense(fromdense(M, nse = k)) = M\<close>; the same holds with \<open>nse\<close>
  left to its default, and for the two kernels composed directly.  No coordinate is
  padded here, so nothing is gathered from an empty matrix.
\<close>

theorem todense_fromdense_roundtrip:
  fixes M :: "'a::comm_ring_1 array2"
  assumes "wf_array2 M" and "count_nonzero M = k" and "index_fits index_dtype (dims M)"
  shows "coo_todense (coo_fromdense M (Some k) index_dtype) = M
       \<and> coo_todense (coo_fromdense M None index_dtype) = M
       \<and> (case coo_fromdense_impl M k index_dtype of (data, row, col) \<Rightarrow>
            coo_todense_impl data row col (COOInfo_shape (dims M))) = M"
proof -
  have a: "(case coo_fromdense_impl M k index_dtype of (data, row, col) \<Rightarrow>
            coo_todense_impl data row col spinfo) = M" if "shape spinfo = dims M" for spinfo
    using assms that by (intro todense_fromdense_impl) simp_all
  have b: "coo_todense (coo_fromdense M (Some k) index_dtype) = M"
    using a[of "\<lparr>shape = dims M, rows_sorted = True, cols_sorted = False\<rparr>"]
    by (simp add: coo_todense_def coo_fromdense_def coo_info_def split: prod.splits)
  have c: "coo_todense (coo_fromdense M None index_dtype) = M"
    using a[of "\<lparr>shape = dims M, rows_sorted = True, cols_sorted = False\<rparr>"] assms(2)
    by (simp add: coo_todense_def coo_fromdense_def coo_info_def split: prod.splits)
  show ?thesis using a[of "COOInfo_shape (dims M)"] b c by (simp add: COOInfo_shape_def)
qed

theorem todense_fromdense_roundtrip_witness:
  "wf_array2 \<lparr>dims = (2, 3), buf = [0, 4, 0, 7, 0, 9 :: int]\<rparr>
   \<and> count_nonzero \<lparr>dims = (2, 3), buf = [0, 4, 0, 7, 0, 9 :: int]\<rparr> = 3
   \<and> index_fits int32 (2, 3)
   \<and> coo_todense (coo_fromdense \<lparr>dims = (2, 3), buf = [0, 4, 0, 7, 0, 9 :: int]\<rparr> (Some 3) int32)
       = \<lparr>dims = (2, 3), buf = [0, 4, 0, 7, 0, 9]\<rparr>"
proof -
  let ?M = "\<lparr>dims = (2, 3), buf = [0, 4, 0, 7, 0, 9 :: int]\<rparr>"
  have h1: "wf_array2 ?M" by code_simp
  have h2: "count_nonzero ?M = 3" by code_simp
  have h3: "index_fits int32 (dims ?M)" by (simp add: index_fits_def)
  from todense_fromdense_roundtrip[OF h1 h2 h3] h1 h2 h3 show ?thesis by simp
qed

text \<open>
  C5.  With the index dtype \<open>int8\<close>, the same 1 x 130 matrix converted with \<open>nse = 2\<close>
  keeps the cast column \<open>-127\<close> in front of the padding, and \<open>todense\<close> of the padded
  result is not \<open>M\<close>.
\<close>

theorem fromdense_padding_narrow_index_counterexample:
  "wf_array2 \<lparr>dims = (1, 130), buf = replicate 129 0 @ [3 :: int]\<rparr>
   \<and> count_nonzero \<lparr>dims = (1, 130), buf = replicate 129 0 @ [3 :: int]\<rparr> = 1
   \<and> (1 :: nat) < 2
   \<and> coo_fromdense_impl \<lparr>dims = (1, 130), buf = replicate 129 0 @ [3 :: int]\<rparr> 2 int8
       = ([3, 0], [0, 0], [- 127, 0])
   \<and> coo_todense (coo_fromdense \<lparr>dims = (1, 130), buf = replicate 129 0 @ [3 :: int]\<rparr>
         (Some 2) int8)
       \<noteq> \<lparr>dims = (1, 130), buf = replicate 129 0 @ [3]\<rparr>"
  by code_simp

text \<open>
  C5, amended.  For a dense matrix \<open>M\<close> with at least one row and one column, exactly
  \<open>k\<close> nonzero entries, \<open>nse > k\<close> and an index dtype in which every coordinate of the
  shape is representable, \<open>fromdense(M, nse)\<close> is \<open>fromdense(M, k)\<close> followed by
  \<open>nse - k\<close> entries of value 0 at coordinate (0, 0).  The \<open>k\<close> entries are the nonzero
  values of \<open>M\<close> in row-major order (their flat positions \<open>row * C + col\<close> increase
  strictly).  All three arrays have length \<open>nse\<close>, and \<open>todense\<close> of the padded matrix
  is \<open>M\<close>.
\<close>

theorem fromdense_padding:
  fixes M :: "'a::comm_ring_1 array2"
  assumes "wf_array2 M" and "count_nonzero M = k" and "k < nse"
    and "index_fits index_dtype (dims M)"
    and "0 < fst (dims M)" and "0 < snd (dims M)"
  shows "(case coo_fromdense_impl M k index_dtype of (data, row, col) \<Rightarrow>
            coo_fromdense_impl M nse index_dtype
              = (data @ replicate (nse - k) 0, row @ replicate (nse - k) 0,
                 col @ replicate (nse - k) 0)
            \<and> length data = k \<and> length row = k \<and> length col = k
            \<and> data = filter (\<lambda>x. x \<noteq> 0) (buf M)
            \<and> sorted_wrt (<) (map2 (\<lambda>r c. r * int (snd (dims M)) + c) row col))
       \<and> coo_nse (coo_fromdense M (Some nse) index_dtype) = nse
       \<and> length (coo_row (coo_fromdense M (Some nse) index_dtype)) = nse
       \<and> length (coo_col (coo_fromdense M (Some nse) index_dtype)) = nse
       \<and> coo_todense (coo_fromdense M (Some nse) index_dtype) = M"
proof -
  have k: "coo_fromdense_impl M k index_dtype =
     (filter (\<lambda>x. x \<noteq> 0) (buf M),
      map (\<lambda>p. int (p div snd (dims M))) (nonzero_positions (buf M)),
      map (\<lambda>p. int (p mod snd (dims M))) (nonzero_positions (buf M)))"
    using fromdense_impl_padded[of M k index_dtype] assms by simp
  have n: "coo_fromdense_impl M nse index_dtype =
     (filter (\<lambda>x. x \<noteq> 0) (buf M) @ replicate (nse - k) 0,
      map (\<lambda>p. int (p div snd (dims M))) (nonzero_positions (buf M)) @ replicate (nse - k) 0,
      map (\<lambda>p. int (p mod snd (dims M))) (nonzero_positions (buf M)) @ replicate (nse - k) 0)"
    using fromdense_impl_padded[of M nse index_dtype] assms by simp
  have lp: "length (nonzero_positions (buf M)) = k"
    using assms(2) by (simp add: length_nonzero_positions)
  have lf: "length (filter (\<lambda>x. x \<noteq> 0) (buf M)) = k"
    using assms(2) by (simp add: count_nonzero_def)
  have so: "sorted_wrt (<) (map int (nonzero_positions (buf M)))"
    using sorted_nonzero_positions[of "buf M"] by (simp add: sorted_wrt_map)
  have first: "(case coo_fromdense_impl M k index_dtype of (data, row, col) \<Rightarrow>
            coo_fromdense_impl M nse index_dtype
              = (data @ replicate (nse - k) 0, row @ replicate (nse - k) 0,
                 col @ replicate (nse - k) 0)
            \<and> length data = k \<and> length row = k \<and> length col = k
            \<and> data = filter (\<lambda>x. x \<noteq> 0) (buf M)
            \<and> sorted_wrt (<) (map2 (\<lambda>r c. r * int (snd (dims M)) + c) row col))"
    unfolding k n using lp lf so by (simp add: row_major_positions)
  have len: "coo_nse (coo_fromdense M (Some nse) index_dtype) = nse
       \<and> length (coo_row (coo_fromdense M (Some nse) index_dtype)) = nse
       \<and> length (coo_col (coo_fromdense M (Some nse) index_dtype)) = nse"
    using fromdense_impl_lengths[of M nse index_dtype]
    by (auto simp add: coo_nse_def coo_fromdense_def split: prod.splits)
  have "(case coo_fromdense_impl M nse index_dtype of (data, row, col) \<Rightarrow>
            coo_todense_impl data row col \<lparr>shape = dims M, rows_sorted = True, cols_sorted = False\<rparr>) = M"
    using assms by (intro todense_fromdense_impl) simp_all
  then have td: "coo_todense (coo_fromdense M (Some nse) index_dtype) = M"
    by (simp add: coo_todense_def coo_fromdense_def coo_info_def split: prod.splits)
  show ?thesis using first len td by blast
qed

theorem fromdense_padding_witness:
  "wf_array2 \<lparr>dims = (2, 3), buf = [0, 4, 0, 7, 0, 9 :: int]\<rparr>
   \<and> count_nonzero \<lparr>dims = (2, 3), buf = [0, 4, 0, 7, 0, 9 :: int]\<rparr> = 3
   \<and> (3 :: nat) < 5
   \<and> index_fits int32 (2, 3)
   \<and> coo_fromdense_impl \<lparr>dims = (2, 3), buf = [0, 4, 0, 7, 0, 9 :: int]\<rparr> 5 int32
       = ([4, 7, 9, 0, 0], [0, 1, 1, 0, 0], [1, 0, 2, 0, 0])
   \<and> coo_todense (coo_fromdense \<lparr>dims = (2, 3), buf = [0, 4, 0, 7, 0, 9 :: int]\<rparr> (Some 5) int32)
       = \<lparr>dims = (2, 3), buf = [0, 4, 0, 7, 0, 9]\<rparr>"
proof -
  let ?M = "\<lparr>dims = (2, 3), buf = [0, 4, 0, 7, 0, 9 :: int]\<rparr>"
  have h1: "wf_array2 ?M" by code_simp
  have h2: "count_nonzero ?M = 3" by code_simp
  have h3: "(3 :: nat) < 5" by simp
  have h4: "index_fits int32 (dims ?M)" by (simp add: index_fits_def)
  have h5: "0 < fst (dims ?M)" by simp
  have h6: "0 < snd (dims ?M)" by simp
  have e: "coo_fromdense_impl ?M 3 int32 = ([4, 7, 9], [0, 1, 1], [1, 0, 2])" by code_simp
  have r: "replicate 2 (0 :: int) = [0, 0]" by (simp add: numeral_2_eq_2)
  from fromdense_padding[OF h1 h2 h3 h4 h5 h6] h1 h2 h4 show ?thesis by (simp add: e r)
qed


section \<open>Sorting the indices\<close>

lemma list_update_add_commute:
  fixes b :: "'a::comm_ring_1 list"
  shows "(b[i := b ! i + u])[j := (b[i := b ! i + u]) ! j + v]
       = (b[j := b ! j + v])[i := (b[j := b ! j + v]) ! i + u]"
proof (cases "i = j")
  case True
  show ?thesis
  proof (cases "i < length b")
    case True
    then show ?thesis using \<open>i = j\<close> by (simp add: ac_simps)
  next
    case False
    then show ?thesis using \<open>i = j\<close> by (simp add: list_update_beyond)
  qed
next
  case False
  then show ?thesis by (simp add: list_update_swap)
qed

lemma dims_add_at2 [simp]: "dims (add_at2 A e) = dims A"
  by (simp add: add_at2_def Let_def)

lemma add_at2_shape:
  fixes A :: "'a::comm_ring_1 array2"
  shows "\<exists>P k. \<forall>B :: 'a array2. dims B = dims A \<longrightarrow>
           add_at2 B e = (if P then B\<lparr>buf := (buf B)[k := buf B ! k + snd (snd e)]\<rparr> else B)"
proof (intro exI allI impI)
  fix B :: "'a array2"
  assume "dims B = dims A"
  then show "add_at2 B e =
      (if 0 \<le> normalize_index (fst (dims A)) (fst e)
          \<and> normalize_index (fst (dims A)) (fst e) < int (fst (dims A))
          \<and> 0 \<le> normalize_index (snd (dims A)) (fst (snd e))
          \<and> normalize_index (snd (dims A)) (fst (snd e)) < int (snd (dims A))
       then B\<lparr>buf := (buf B)[nat (normalize_index (fst (dims A)) (fst e)) * snd (dims A)
                              + nat (normalize_index (snd (dims A)) (fst (snd e)))
                            := buf B ! (nat (normalize_index (fst (dims A)) (fst e)) * snd (dims A)
                              + nat (normalize_index (snd (dims A)) (fst (snd e)))) + snd (snd e)]\<rparr>
       else B)"
    by (simp add: add_at2_def Let_def)
qed

lemma add_at2_commute:
  fixes A :: "'a::comm_ring_1 array2"
  shows "add_at2 (add_at2 A e1) e2 = add_at2 (add_at2 A e2) e1"
proof -
  obtain P1 k1 where a1: "\<And>B :: 'a array2. dims B = dims A \<Longrightarrow>
      add_at2 B e1 = (if P1 then B\<lparr>buf := (buf B)[k1 := buf B ! k1 + snd (snd e1)]\<rparr> else B)"
    using add_at2_shape[of A e1] by blast
  obtain P2 k2 where a2: "\<And>B :: 'a array2. dims B = dims A \<Longrightarrow>
      add_at2 B e2 = (if P2 then B\<lparr>buf := (buf B)[k2 := buf B ! k2 + snd (snd e2)]\<rparr> else B)"
    using add_at2_shape[of A e2] by blast
  have l: "add_at2 (add_at2 A e1) e2
      = (if P2 then (add_at2 A e1)\<lparr>buf := (buf (add_at2 A e1))[k2 := buf (add_at2 A e1) ! k2 + snd (snd e2)]\<rparr>
         else add_at2 A e1)"
    by (rule a2) simp
  have r: "add_at2 (add_at2 A e2) e1
      = (if P1 then (add_at2 A e2)\<lparr>buf := (buf (add_at2 A e2))[k1 := buf (add_at2 A e2) ! k1 + snd (snd e1)]\<rparr>
         else add_at2 A e2)"
    by (rule a1) simp
  show ?thesis
    unfolding l r
    by (cases P1; cases P2) (simp_all add: a1[of A] a2[of A] list_update_add_commute)
qed

lemma fold_add_at2_permute:
  fixes A :: "'a::comm_ring_1 array2"
  assumes "mset es = mset es'"
  shows "fold (\<lambda>e A. add_at2 A e) es A = fold (\<lambda>e A. add_at2 A e) es' A"
proof -
  have "fold (\<lambda>e A. add_at2 A e) es = fold (\<lambda>e A. add_at2 A e) es'"
    by (rule fold_multiset_equiv) (simp_all add: fun_eq_iff add_at2_commute assms)
  then show ?thesis by simp
qed

lemma coo_todense_entries:
  "coo_todense mat = fold (\<lambda>e A. add_at2 A e) (coo_entries mat) (zeros2 (coo_shape mat))"
  by (simp add: coo_todense_def coo_todense_impl_def scatter_add2_def coo_entries_def coo_info_def)

lemma sort_indices_unsorted:
  assumes "\<not> coo_rows_sorted m"
  shows "coo_entries (sort_indices m) = sort_key (\<lambda>e. (fst e, fst (snd e))) (coo_entries m)"
    and "coo_row (sort_indices m) = map fst (sort_key (\<lambda>e. (fst e, fst (snd e))) (coo_entries m))"
    and "coo_col (sort_indices m)
           = map (\<lambda>e. fst (snd e)) (sort_key (\<lambda>e. (fst e, fst (snd e))) (coo_entries m))"
    and "coo_data (sort_indices m)
           = map (\<lambda>e. snd (snd e)) (sort_key (\<lambda>e. (fst e, fst (snd e))) (coo_entries m))"
    and "coo_shape (sort_indices m) = coo_shape m"
    and "coo_rows_sorted (sort_indices m)"
  using assms
  by (simp_all add: sort_indices_def lax_sort2_def coo_entries_def Let_def zip3_map)

lemma sorted_key_rows:
  fixes s :: "(int \<times> int \<times> 'a) list"
  assumes "sorted (map (\<lambda>e. (fst e, fst (snd e))) s)"
  shows "sorted (map fst s)"
    and "\<forall>i j. i \<le> j \<and> j < length s \<and> fst (s ! i) = fst (s ! j)
           \<longrightarrow> fst (snd (s ! i)) \<le> fst (snd (s ! j))"
proof -
  have nth: "(fst (s ! i), fst (snd (s ! i))) \<le> (fst (s ! j), fst (snd (s ! j)))"
    if "i \<le> j" "j < length s" for i j
    using assms that sorted_iff_nth_mono[of "map (\<lambda>e. (fst e, fst (snd e))) s"] by fastforce
  show "sorted (map fst s)"
    unfolding sorted_iff_nth_mono
  proof (intro allI impI)
    fix i j assume "i \<le> j" "j < length (map fst s)"
    then show "map fst s ! i \<le> map fst s ! j" using nth[of i j] by auto
  qed
  show "\<forall>i j. i \<le> j \<and> j < length s \<and> fst (s ! i) = fst (s ! j)
           \<longrightarrow> fst (snd (s ! i)) \<le> fst (snd (s ! j))"
  proof (intro allI impI)
    fix i j assume "i \<le> j \<and> j < length s \<and> fst (s ! i) = fst (s ! j)"
    then show "fst (snd (s ! i)) \<le> fst (snd (s ! j))" using nth[of i j] by auto
  qed
qed

text \<open>
  C8.  On a matrix whose three arrays have one length, \<open>_sort_indices\<close> returns the
  matrix itself when \<open>rows_sorted\<close> is set.  Otherwise the result has \<open>rows_sorted\<close>
  set and the same shape and lengths; its rows are non-decreasing and, between two
  positions of equal row, its columns are non-decreasing; its (row, column, value)
  triples are a permutation of those of the input, and the triples of every single
  coordinate keep their input order (stability).  In both cases \<open>todense\<close> of the
  result equals \<open>todense\<close> of the input.
\<close>

theorem sort_indices_sorted_permutation:
  fixes m :: "'a::comm_ring_1 COO"
  assumes "length (coo_row m) = length (coo_data m)"
    and "length (coo_col m) = length (coo_data m)"
  shows "(coo_rows_sorted m \<longrightarrow> sort_indices m = m)
       \<and> (\<not> coo_rows_sorted m \<longrightarrow>
            coo_rows_sorted (sort_indices m)
          \<and> coo_shape (sort_indices m) = coo_shape m
          \<and> length (coo_data (sort_indices m)) = length (coo_data m)
          \<and> length (coo_row (sort_indices m)) = length (coo_data m)
          \<and> length (coo_col (sort_indices m)) = length (coo_data m)
          \<and> sorted (coo_row (sort_indices m))
          \<and> (\<forall>i j. i \<le> j \<and> j < coo_nse (sort_indices m)
                     \<and> coo_row (sort_indices m) ! i = coo_row (sort_indices m) ! j
                 \<longrightarrow> coo_col (sort_indices m) ! i \<le> coo_col (sort_indices m) ! j)
          \<and> mset (coo_entries (sort_indices m)) = mset (coo_entries m)
          \<and> (\<forall>r c. filter (\<lambda>e. fst e = r \<and> fst (snd e) = c) (coo_entries (sort_indices m))
                     = filter (\<lambda>e. fst e = r \<and> fst (snd e) = c) (coo_entries m)))
       \<and> coo_todense (sort_indices m) = coo_todense m"
proof (cases "coo_rows_sorted m")
  case True
  then show ?thesis by (simp add: sort_indices_def)
next
  case False
  let ?key = "\<lambda>e :: int \<times> int \<times> 'a. (fst e, fst (snd e))"
  let ?s = "sort_key ?key (coo_entries m)"
  note u = sort_indices_unsorted[OF False]
  have le: "length (coo_entries m) = length (coo_data m)"
    using assms by (simp add: coo_entries_def)
  have len: "length (coo_data (sort_indices m)) = length (coo_data m)"
      "length (coo_row (sort_indices m)) = length (coo_data m)"
      "length (coo_col (sort_indices m)) = length (coo_data m)"
    using le by (simp_all add: u)
  have srt: "sorted (map ?key ?s)" by (rule sorted_sort_key)
  have rows: "sorted (coo_row (sort_indices m))"
    using sorted_key_rows(1)[OF srt] by (simp add: u)
  have cols: "\<forall>i j. i \<le> j \<and> j < coo_nse (sort_indices m)
                     \<and> coo_row (sort_indices m) ! i = coo_row (sort_indices m) ! j
                 \<longrightarrow> coo_col (sort_indices m) ! i \<le> coo_col (sort_indices m) ! j"
  proof (intro allI impI)
    fix i j
    assume h: "i \<le> j \<and> j < coo_nse (sort_indices m)
                     \<and> coo_row (sort_indices m) ! i = coo_row (sort_indices m) ! j"
    then have j: "j < length ?s" and i: "i < length ?s" by (simp_all add: coo_nse_def u)
    from h i j have "fst (?s ! i) = fst (?s ! j)" by (simp add: u)
    with h j have "fst (snd (?s ! i)) \<le> fst (snd (?s ! j))"
      using sorted_key_rows(2)[OF srt] by blast
    then show "coo_col (sort_indices m) ! i \<le> coo_col (sort_indices m) ! j"
      using i j by (simp add: u)
  qed
  have perm: "mset (coo_entries (sort_indices m)) = mset (coo_entries m)"
    by (simp add: u)
  have stab: "filter (\<lambda>e. fst e = r \<and> fst (snd e) = c) (coo_entries (sort_indices m))
                     = filter (\<lambda>e. fst e = r \<and> fst (snd e) = c) (coo_entries m)" for r c
    using sort_key_stable[of ?key "(r, c)" "coo_entries m"] by (simp add: u)
  have td: "coo_todense (sort_indices m) = coo_todense m"
    unfolding coo_todense_entries using fold_add_at2_permute[OF perm] by (simp add: u)
  show ?thesis using False u(5,6) len rows cols perm stab td by simp
qed


theorem sort_indices_sorted_permutation_witness:
  "length [1, 0, 1, 0 :: int] = length [10, 20, 30, 40 :: int]
   \<and> length [2, 1, 0, 1 :: int] = length [10, 20, 30, 40 :: int]
   \<and> sort_indices \<lparr>coo_data = [10, 20, 30, 40 :: int], coo_row = [1, 0, 1, 0],
        coo_col = [2, 1, 0, 1], coo_shape = (2, 3), coo_rows_sorted = False,
        coo_cols_sorted = False\<rparr>
       = \<lparr>coo_data = [20, 40, 30, 10], coo_row = [0, 0, 1, 1], coo_col = [1, 1, 0, 2],
          coo_shape = (2, 3), coo_rows_sorted = True, coo_cols_sorted = False\<rparr>
   \<and> coo_todense (sort_indices \<lparr>coo_data = [10, 20, 30, 40 :: int], coo_row = [1, 0, 1, 0],
        coo_col = [2, 1, 0, 1], coo_shape = (2, 3), coo_rows_sorted = False,
        coo_cols_sorted = False\<rparr>)
       = coo_todense \<lparr>coo_data = [10, 20, 30, 40 :: int], coo_row = [1, 0, 1, 0],
        coo_col = [2, 1, 0, 1], coo_shape = (2, 3), coo_rows_sorted = False,
        coo_cols_sorted = False\<rparr>
   \<and> sorted (coo_row (sort_indices \<lparr>coo_data = [10, 20, 30, 40 :: int], coo_row = [1, 0, 1, 0],
        coo_col = [2, 1, 0, 1], coo_shape = (2, 3), coo_rows_sorted = False,
        coo_cols_sorted = False\<rparr>))"
proof -
  let ?m = "\<lparr>coo_data = [10, 20, 30, 40 :: int], coo_row = [1, 0, 1, 0],
        coo_col = [2, 1, 0, 1], coo_shape = (2, 3), coo_rows_sorted = False,
        coo_cols_sorted = False\<rparr>"
  have h1: "length (coo_row ?m) = length (coo_data ?m)" by simp
  have h2: "length (coo_col ?m) = length (coo_data ?m)" by simp
  have e: "sort_indices ?m
       = \<lparr>coo_data = [20, 40, 30, 10], coo_row = [0, 0, 1, 1], coo_col = [1, 1, 0, 2],
          coo_shape = (2, 3), coo_rows_sorted = True, coo_cols_sorted = False\<rparr>"
    by code_simp
  have n: "\<not> coo_rows_sorted ?m" by simp
  from sort_indices_sorted_permutation[OF h1 h2] n
  have "coo_todense (sort_indices ?m) = coo_todense ?m" and "sorted (coo_row (sort_indices ?m))"
    by blast+
  then show ?thesis using e by simp
qed

end
